theory Spec2Isabelle
  imports Main "HOL-Library.Multiset" "HOL-Library.Word"
begin

section \<open>Event ticket administration: the data model\<close>

text \<open>
  The program is a single script, \<^verbatim>\<open>streamlit_app_01.py\<close>. It keeps the ticket table in a
  pandas data frame, mutates it in the handlers of its buttons and forms, and writes the
  whole table back after each confirmed action. The table is modelled as a list of rows in
  table order (the frame has the default index, so a label is a position), a row as a
  record of its columns, and a handler as a function from the table to the table it saves.
  An exception raised before the save is the value \<open>Inl\<close> of the result; the sheet then
  keeps the table it had.

  Strings are \<open>char list\<close>, so the lengths below count bytes; they are Python's lengths on
  ASCII text.
\<close>

datatype py_error = IndexError | ValueError | StreamlitAPIException

text \<open>
  A cell of the \<^verbatim>\<open>Seq\<close> column as the sort key function sees it: a number or a string
  (floating point cells are not modelled).
\<close>

datatype seq_cell = SeqInt int | SeqStr string

record ticket =
  TicketID :: string
  Type :: string
  Category :: string
  Seq :: seq_cell
  Admit :: int
  Sold :: bool
  Visited :: bool
  Customer :: string
  Visitor_Seats :: int
  Timestamp :: "string option"

text \<open>The table the sheet holds after a handler has run on \<open>tickets\<close>.\<close>

definition sheet_after :: "ticket list \<Rightarrow> py_error + ticket list \<Rightarrow> ticket list" where
  "sheet_after tickets r = (case r of Inl e \<Rightarrow> tickets | Inr tickets' \<Rightarrow> tickets')"

section \<open>Cleaning the TicketID column\<close>

text \<open>
  Python's \<^verbatim>\<open>str.split(sep)\<close> for a one-character separator: the pieces between the
  occurrences of the separator, never an empty list.
\<close>

fun split_on :: "char \<Rightarrow> string \<Rightarrow> string list" where
  "split_on c [] = [[]]"
| "split_on c (x # xs) =
     (if x = c then [] # split_on c xs
      else (case split_on c xs of
              [] \<Rightarrow> [[x]]
            | w # ws \<Rightarrow> (x # w) # ws))"

text \<open>
  Python's \<^verbatim>\<open>str.zfill(width)\<close>: a string at least \<open>width\<close> long is returned as it is;
  a shorter one is filled with zeros on the left, and when its first character is a sign
  the zeros go after the sign.
\<close>

definition zfill :: "nat \<Rightarrow> string \<Rightarrow> string" where
  "zfill width s =
     (if width \<le> length s then s
      else (case s of
              [] \<Rightarrow> replicate width CHR ''0''
            | c # rest \<Rightarrow>
                if c = CHR ''+'' \<or> c = CHR ''-''
                then c # replicate (width - length s) CHR ''0'' @ rest
                else replicate (width - length s) CHR ''0'' @ s))"

text \<open>
  Line 26, applied by \<^verbatim>\<open>load_all_data\<close> to the string form of every TicketID cell:
  \<^verbatim>\<open>lambda x: x.split('.')[0].zfill(4)\<close>. Element 0 of the split always exists.
\<close>

definition clean_ticket_id :: "string \<Rightarrow> string" where
  "clean_ticket_id x =
     zfill 4 (case split_on CHR ''.'' x of [] \<Rightarrow> [] | w # ws \<Rightarrow> w)"

text \<open>
  Line 137, applied by the bulk upload to the string form of every uploaded TicketID cell:
  \<^verbatim>\<open>up_df['TicketID'].astype(str).str.zfill(4)\<close>. The pandas method is taken to fill as
  Python's \<^verbatim>\<open>str.zfill\<close> does.
\<close>

definition bulk_ticket_id :: "string \<Rightarrow> string" where
  "bulk_ticket_id x = zfill 4 x"

text \<open>
  The wording of the specification for the same step, kept apart from the code: drop
  everything from the first full stop on, then put zeros on the left up to four
  characters.
\<close>

definition spec_strip_dot :: "string \<Rightarrow> string" where
  "spec_strip_dot x = takeWhile (\<lambda>c. c \<noteq> CHR ''.'') x"

definition spec_pad_left :: "nat \<Rightarrow> string \<Rightarrow> string" where
  "spec_pad_left width s = replicate (width - length s) CHR ''0'' @ s"

definition spec_normalize :: "string \<Rightarrow> string" where
  "spec_normalize x = spec_pad_left 4 (spec_strip_dot x)"

section \<open>The custom sort\<close>

text \<open>
  Python's \<^verbatim>\<open>int(s)\<close> on a string, for ASCII text: blanks around the number are dropped,
  one sign may come first, and the rest is decimal digits in which a single underscore
  may stand between two digits. Anything else raises \<^verbatim>\<open>ValueError\<close>.
\<close>

definition is_space :: "char \<Rightarrow> bool" where
  "is_space c = (of_char c \<in> {9, 10, 11, 12, 13, 32 :: nat})"

definition is_digit :: "char \<Rightarrow> bool" where
  "is_digit c = (48 \<le> (of_char c :: nat) \<and> (of_char c :: nat) \<le> 57)"

definition digit_val :: "char \<Rightarrow> nat" where
  "digit_val c = of_char c - 48"

definition strip :: "string \<Rightarrow> string" where
  "strip s = rev (dropWhile is_space (rev (dropWhile is_space s)))"

fun digits_value :: "nat \<Rightarrow> string \<Rightarrow> nat option" where
  "digits_value acc [] = Some acc"
| "digits_value acc (c # cs) =
     (if is_digit c then digits_value (10 * acc + digit_val c) cs
      else if c = CHR ''_'' \<and> cs \<noteq> [] \<and> is_digit (hd cs) then digits_value acc cs
      else None)"

definition py_digits :: "string \<Rightarrow> nat option" where
  "py_digits s = (case s of [] \<Rightarrow> None | c # cs \<Rightarrow> if is_digit c then digits_value 0 s else None)"

definition py_int_str :: "string \<Rightarrow> py_error + int" where
  "py_int_str s =
     (case strip s of
        [] \<Rightarrow> Inl ValueError
      | c # cs \<Rightarrow>
          if c = CHR ''-'' then (case py_digits cs of None \<Rightarrow> Inl ValueError | Some n \<Rightarrow> Inr (- int n))
          else if c = CHR ''+'' then (case py_digits cs of None \<Rightarrow> Inl ValueError | Some n \<Rightarrow> Inr (int n))
          else (case py_digits (c # cs) of None \<Rightarrow> Inl ValueError | Some n \<Rightarrow> Inr (int n)))"

text \<open>
  Line 50, the key function: \<^verbatim>\<open>lambda x: 10 if x == 0 or x == '0' else int(x)\<close>.
\<close>

definition sort_key_of :: "seq_cell \<Rightarrow> py_error + int" where
  "sort_key_of x =
     (case x of
        SeqInt n \<Rightarrow> if n = 0 then Inr 10 else Inr n
      | SeqStr s \<Rightarrow> if s = ''0'' then Inr 10 else py_int_str s)"

text \<open>
  \<^verbatim>\<open>df['Seq'].apply(...)\<close> computes the key of every row, in order, and raises at the first
  cell that has none.
\<close>

fun apply_keys :: "seq_cell list \<Rightarrow> py_error + int list" where
  "apply_keys [] = Inr []"
| "apply_keys (x # xs) =
     (case sort_key_of x of
        Inl e \<Rightarrow> Inl e
      | Inr k \<Rightarrow> (case apply_keys xs of Inl e \<Rightarrow> Inl e | Inr ks \<Rightarrow> Inr (k # ks)))"

text \<open>
  \<^verbatim>\<open>custom_sort(df)\<close>, lines 48 to 51. The frame is a list of rows of any row type; the
  first argument reads the \<^verbatim>\<open>Seq\<close> column of a row and is \<open>None\<close> for a frame without
  that column, which is returned as it is. The rows are sorted by the key column, which
  is then dropped. The order pandas gives to rows of equal key is not fixed by its
  default sort; the model keeps them in their input order, and no statement below
  depends on that choice except through concrete tables without equal keys.
\<close>

definition custom_sort :: "('r \<Rightarrow> seq_cell) option \<Rightarrow> 'r list \<Rightarrow> py_error + 'r list" where
  "custom_sort seq_col df =
     (case seq_col of
        None \<Rightarrow> Inr df
      | Some col \<Rightarrow>
          (case apply_keys (map col df) of
             Inl e \<Rightarrow> Inl e
           | Inr keys \<Rightarrow> Inr (map snd (sort_key fst (zip keys df)))))"

text \<open>A row holds a zero in \<^verbatim>\<open>Seq\<close>: the number 0 or the string \<^verbatim>\<open>'0'\<close>.\<close>

definition is_zero_seq :: "seq_cell \<Rightarrow> bool" where
  "is_zero_seq x = (x = SeqInt 0 \<or> x = SeqStr ''0'')"

text \<open>The number a cell stands for, when it stands for one, and whether it is positive.\<close>

definition seq_value :: "seq_cell \<Rightarrow> int option" where
  "seq_value x =
     (case x of
        SeqInt n \<Rightarrow> Some n
      | SeqStr s \<Rightarrow> (case py_int_str s of Inl e \<Rightarrow> None | Inr n \<Rightarrow> Some n))"

definition is_positive_seq :: "seq_cell \<Rightarrow> bool" where
  "is_positive_seq x = (case seq_value x of None \<Rightarrow> False | Some n \<Rightarrow> 0 < n)"

definition positive_below :: "int \<Rightarrow> seq_cell \<Rightarrow> bool" where
  "positive_below b x = (case seq_value x of None \<Rightarrow> False | Some n \<Rightarrow> 0 < n \<and> n < b)"

text \<open>
  The wording of the specification for the place of the zero rows in a sorted column:
  every zero row stands after every row that satisfies \<open>P\<close>.
\<close>

definition zeros_after :: "(seq_cell \<Rightarrow> bool) \<Rightarrow> seq_cell list \<Rightarrow> bool" where
  "zeros_after P seqs =
     (\<forall>i \<in> {..<length seqs}. \<forall>j \<in> {..<length seqs}.
         is_zero_seq (seqs ! i) \<and> P (seqs ! j) \<longrightarrow> j < i)"

section \<open>The dashboard summary\<close>

text \<open>
  Lines 82 to 92. The group key is the tuple of the four grouping columns. A row of the
  summary carries the key columns (prefixed \<open>g\<close> here, since a record field name is a
  constant) and the computed columns under the names the script gives them.

  The computed columns are pandas columns of 64-bit integers: their sums, products and
  differences wrap around, and \<open>sint\<close> reads the number a cell shows. An Admit or
  Visitor_Seats cell enters the arithmetic through \<open>word_of_int\<close>, which keeps every
  number of the 64-bit range.
\<close>

type_synonym int64 = "64 word"

type_synonym group_key = "seq_cell \<times> string \<times> string \<times> int"

definition key_of :: "ticket \<Rightarrow> group_key" where
  "key_of t = (Seq t, Type t, Category t, Admit t)"

record summary_row =
  gSeq :: seq_cell
  gType :: string
  gCategory :: string
  gAdmit :: int
  Total_Tickets :: int64
  Tickets_Sold :: int64
  Total_Visitors :: int64
  Total_Seats :: int64
  Seats_sold :: int64
  Balance_Tickets :: int64
  Balance_Seats :: int64
  Balance_Visitors :: int64

text \<open>
  \<^verbatim>\<open>df.groupby([...])\<close>: one group for each key that occurs, holding the rows of that key
  in table order. pandas lists the groups in the order of their keys; the model lists
  each key once without fixing that order, which line 98 replaces by the custom sort.
  Every cell of the four key columns is taken to be present.
\<close>

definition groupby :: "ticket list \<Rightarrow> (group_key \<times> ticket list) list" where
  "groupby df = map (\<lambda>k. (k, filter (\<lambda>t. key_of t = k) df)) (remdups (map key_of df))"

text \<open>
  The three aggregates of a group (count of TicketID, sum of Sold, sum of Visitor_Seats;
  a cleaned TicketID is a string and never missing, and a true Sold counts as 1),
  followed by the five columns that lines 88 to 92 compute from them.
\<close>

definition agg :: "group_key \<times> ticket list \<Rightarrow> summary_row" where
  "agg g =
     (case g of (k, rows) \<Rightarrow>
       (case k of (seq, ty, cat, admit) \<Rightarrow>
          let total_tickets = (of_nat (length (map TicketID rows)) :: int64);
              tickets_sold = (sum_list (map (\<lambda>t. if Sold t then 1 else 0) rows) :: int64);
              total_visitors = (sum_list (map (\<lambda>t. word_of_int (Visitor_Seats t)) rows) :: int64);
              total_seats = total_tickets * word_of_int admit;
              seats_sold = tickets_sold * word_of_int admit
          in \<lparr> gSeq = seq, gType = ty, gCategory = cat, gAdmit = admit,
               Total_Tickets = total_tickets,
               Tickets_Sold = tickets_sold,
               Total_Visitors = total_visitors,
               Total_Seats = total_seats,
               Seats_sold = seats_sold,
               Balance_Tickets = total_tickets - tickets_sold,
               Balance_Seats = total_seats - seats_sold,
               Balance_Visitors = seats_sold - total_visitors \<rparr>))"

definition summary :: "ticket list \<Rightarrow> summary_row list" where
  "summary df = map agg (groupby df)"

text \<open>Line 98: the summary in the custom order (before the row of totals is appended).\<close>

definition dashboard_summary :: "ticket list \<Rightarrow> py_error + summary_row list" where
  "dashboard_summary df = custom_sort (Some gSeq) (summary df)"

definition row_key :: "summary_row \<Rightarrow> group_key" where
  "row_key g = (gSeq g, gType g, gCategory g, gAdmit g)"

text \<open>
  The wording of the specification for a row of the summary, read on the numbers the
  cells show: the seats are the tickets times Admit, the balance is the tickets less the
  sold ones, the tickets are the rows of the group and the sold ones are its rows with
  Sold true.
\<close>

definition group_row_ok :: "ticket list \<Rightarrow> summary_row \<Rightarrow> bool" where
  "group_row_ok df g =
     (sint (Total_Seats g) = sint (Total_Tickets g) * gAdmit g \<and>
      sint (Balance_Tickets g) = sint (Total_Tickets g) - sint (Tickets_Sold g) \<and>
      sint (Total_Tickets g) = int (length (filter (\<lambda>t. key_of t = row_key g) df)) \<and>
      sint (Tickets_Sold g) = int (length (filter (\<lambda>t. key_of t = row_key g \<and> Sold t) df)))"

text \<open>The same four equations in the wrap-around arithmetic of the columns.\<close>

definition group_row_wrapped :: "ticket list \<Rightarrow> summary_row \<Rightarrow> bool" where
  "group_row_wrapped df g =
     (Total_Seats g = Total_Tickets g * word_of_int (gAdmit g) \<and>
      Balance_Tickets g = Total_Tickets g - Tickets_Sold g \<and>
      Total_Tickets g = of_nat (length (filter (\<lambda>t. key_of t = row_key g) df)) \<and>
      Tickets_Sold g = of_nat (length (filter (\<lambda>t. key_of t = row_key g \<and> Sold t) df)))"

text \<open>A number lies in the range of a 64-bit cell.\<close>

definition in_int64 :: "int \<Rightarrow> bool" where
  "in_int64 n = (- (2 ^ 63) \<le> n \<and> n < 2 ^ 63)"

section \<open>The ticket operations\<close>

text \<open>
  \<^verbatim>\<open>frame.index[mask][0]\<close>: the position of the first row that satisfies the mask, and
  \<^verbatim>\<open>IndexError\<close> (here \<open>None\<close>) when no row does.
\<close>

fun first_index :: "('a \<Rightarrow> bool) \<Rightarrow> 'a list \<Rightarrow> nat option" where
  "first_index P [] = None"
| "first_index P (x # xs) = (if P x then Some 0 else map_option Suc (first_index P xs))"

subsection \<open>Reset\<close>

text \<open>Lines 63 to 73: the five columns are overwritten in every row when the password matches.\<close>

definition reset_row :: "ticket \<Rightarrow> ticket" where
  "reset_row t = t\<lparr>Sold := False, Visited := False, Customer := [], Visitor_Seats := 0,
                   Timestamp := None\<rparr>"

definition reset_database :: "string \<Rightarrow> ticket list \<Rightarrow> py_error + ticket list" where
  "reset_database admin_pass tickets =
     (if admin_pass = ''admin123'' then Inr (map reset_row tickets) else Inr tickets)"

subsection \<open>Manual sale\<close>

text \<open>Lines 117 and 118: the IDs offered in the sale form.\<close>

definition avail :: "string \<Rightarrow> string \<Rightarrow> ticket list \<Rightarrow> string list" where
  "avail s_type s_cat tickets =
     map TicketID (filter (\<lambda>t. Type t = s_type \<and> Category t = s_cat \<and> \<not> Sold t) tickets)"

text \<open>Lines 125 to 128: what the submit button does with the chosen ID.\<close>

definition sell_row :: "string \<Rightarrow> string \<Rightarrow> ticket \<Rightarrow> ticket" where
  "sell_row cust now t = t\<lparr>Sold := True, Customer := cust, Timestamp := Some now\<rparr>"

definition confirm_sale :: "string \<Rightarrow> string \<Rightarrow> string \<Rightarrow> ticket list \<Rightarrow> py_error + ticket list" where
  "confirm_sale tid cust now tickets =
     (case first_index (\<lambda>t. TicketID t = tid) tickets of
        None \<Rightarrow> Inl IndexError
      | Some idx \<Rightarrow> Inr (tickets[idx := sell_row cust now (tickets ! idx)]))"

text \<open>
  Lines 117 to 131 as a whole. The form is drawn only when some ID is offered, and its
  select box returns one of the offered IDs; a choice that is not offered cannot be
  submitted, and the table stays as it is.
\<close>

definition manual_sale ::
  "string \<Rightarrow> string \<Rightarrow> string \<Rightarrow> string \<Rightarrow> string \<Rightarrow> ticket list \<Rightarrow> py_error + ticket list" where
  "manual_sale s_type s_cat tid cust now tickets =
     (if avail s_type s_cat tickets = [] then Inr tickets
      else if tid \<notin> set (avail s_type s_cat tickets) then Inr tickets
      else confirm_sale tid cust now tickets)"

subsection \<open>Bulk sale\<close>

text \<open>
  Lines 138 to 144. An uploaded row is a pair of the TicketID (already filled by line 137)
  and the customer name. The clock gives the time read in each turn of the loop.
\<close>

fun bulk_loop :: "(string \<times> string) list \<Rightarrow> (nat \<Rightarrow> string) \<Rightarrow> nat \<Rightarrow> ticket list \<Rightarrow> ticket list" where
  "bulk_loop [] clock k tickets = tickets"
| "bulk_loop (row # rows) clock k tickets =
     (case first_index (\<lambda>t. TicketID t = fst row \<and> \<not> Sold t) tickets of
        None \<Rightarrow> bulk_loop rows clock (Suc k) tickets
      | Some idx \<Rightarrow>
          bulk_loop rows clock (Suc k) (tickets[idx := sell_row (snd row) (clock k) (tickets ! idx)]))"

text \<open>Lines 136 to 146: the upload, as pairs of the string form of the TicketID cell and the name.\<close>

definition process_bulk_sale ::
  "(string \<times> string) list \<Rightarrow> (nat \<Rightarrow> string) \<Rightarrow> ticket list \<Rightarrow> py_error + ticket list" where
  "process_bulk_sale up_df clock tickets =
     Inr (bulk_loop (map (\<lambda>row. (bulk_ticket_id (fst row), snd row)) up_df) clock 0 tickets)"

subsection \<open>Check-in\<close>

text \<open>Lines 160 to 162: the IDs offered in the check-in form.\<close>

definition elig :: "string \<Rightarrow> string \<Rightarrow> ticket list \<Rightarrow> string list" where
  "elig v_type v_cat tickets =
     map TicketID
       (filter (\<lambda>t. Type t = v_type \<and> Category t = v_cat \<and> Sold t \<and> \<not> Visited t) tickets)"

text \<open>
  \<^verbatim>\<open>st.number_input(label, min_value, max_value, value)\<close>: the call raises when the default
  lies outside the bounds. Otherwise it returns the number the field holds; a number
  outside the bounds is not held, the field falls back to the default.
\<close>

definition number_input :: "int \<Rightarrow> int \<Rightarrow> int \<Rightarrow> int \<Rightarrow> py_error + int" where
  "number_input min_value max_value val entered =
     (if val < min_value \<or> max_value < val then Inl StreamlitAPIException
      else if entered < min_value \<or> max_value < entered then Inr val
      else Inr entered)"

definition checkin_row :: "int \<Rightarrow> string \<Rightarrow> ticket \<Rightarrow> ticket" where
  "checkin_row v_count now t = t\<lparr>Visited := True, Visitor_Seats := v_count, Timestamp := Some now\<rparr>"

text \<open>Lines 170 to 173: what the submit button does with the chosen ID and the count.\<close>

definition confirm_entry :: "string \<Rightarrow> int \<Rightarrow> string \<Rightarrow> ticket list \<Rightarrow> py_error + ticket list" where
  "confirm_entry tid v_count now tickets =
     (case first_index (\<lambda>t. TicketID t = tid) tickets of
        None \<Rightarrow> Inl IndexError
      | Some idx \<Rightarrow> Inr (tickets[idx := checkin_row v_count now (tickets ! idx)]))"

text \<open>
  Lines 160 to 175 as a whole: the form is drawn when some ID is offered, the bound and the
  default of the number field are the \<^verbatim>\<open>Admit\<close> of the first row that bears the chosen
  ID, and the entry is confirmed with the number the field returns. The handler itself
  compares the count with nothing. \<open>entered\<close> is the number typed into the field.
\<close>

definition checkin ::
  "string \<Rightarrow> string \<Rightarrow> string \<Rightarrow> int \<Rightarrow> string \<Rightarrow> ticket list \<Rightarrow> py_error + ticket list" where
  "checkin v_type v_cat tid entered now tickets =
     (if elig v_type v_cat tickets = [] then Inr tickets
      else if tid \<notin> set (elig v_type v_cat tickets) then Inr tickets
      else (case first_index (\<lambda>t. TicketID t = tid) tickets of
              None \<Rightarrow> Inl IndexError
            | Some i \<Rightarrow>
                let max_v = Admit (tickets ! i) in
                (case number_input 1 max_v max_v entered of
                   Inl e \<Rightarrow> Inl e
                 | Inr v_count \<Rightarrow> confirm_entry tid v_count now tickets)))"

text \<open>The invariant of the table: a visited ticket is a sold ticket.\<close>

definition visited_implies_sold :: "ticket list \<Rightarrow> bool" where
  "visited_implies_sold tickets = list_all (\<lambda>t. Visited t \<longrightarrow> Sold t) tickets"

section \<open>Sample rows\<close>

text \<open>
  A row of the category Public / Gold admitting two, with a given ID and given flags; a
  sold row carries a customer and a time, a visited row its two seats.
\<close>

definition demo_ticket :: "string \<Rightarrow> bool \<Rightarrow> bool \<Rightarrow> ticket" where
  "demo_ticket tid sold visited =
     \<lparr>TicketID = tid, Type = ''Public'', Category = ''Gold'', Seq = SeqInt 1, Admit = 2,
      Sold = sold, Visited = visited, Customer = (if sold then ''Ann'' else []),
      Visitor_Seats = (if visited then 2 else 0),
      Timestamp = (if sold then Some ''t0'' else None)\<rparr>"

text \<open>An unsold row of the same category whose Admit is \<open>2 ^ 62\<close>.\<close>

definition big_ticket :: "string \<Rightarrow> ticket" where
  "big_ticket tid = (demo_ticket tid False False)\<lparr>Admit := 4611686018427387904\<rparr>"

section \<open>Properties\<close>

subsection \<open>TicketID cleaning\<close>

lemma split_on_first: "split_on c xs = takeWhile (\<lambda>x. x \<noteq> c) xs # tl (split_on c xs)"
  by (induction xs) (auto split: list.splits)

lemma split_on_head:
  "(case split_on c xs of [] \<Rightarrow> [] | w # ws \<Rightarrow> w) = takeWhile (\<lambda>x. x \<noteq> c) xs"
  by (subst split_on_first) simp

lemma zfill_by_padding:
  "zfill w s =
     (case s of
        [] \<Rightarrow> spec_pad_left w s
      | c # rest \<Rightarrow>
          if (c = CHR ''+'' \<or> c = CHR ''-'') \<and> length s < w
          then c # spec_pad_left (w - 1) rest
          else spec_pad_left w s)"
  by (auto simp: zfill_def spec_pad_left_def split: list.splits)

text \<open>
  C6, as amended. The cleaning at load time gives the string form of the cell with
  everything from the first full stop on removed, and then filled with zeros on the left
  up to four characters, with one exception: when what is left begins with a plus or
  minus sign and is shorter than four characters, the sign stays in front and the zeros
  follow it. In particular \<^verbatim>\<open>901.0\<close> becomes \<^verbatim>\<open>0901\<close> and \<^verbatim>\<open>12\<close> becomes \<^verbatim>\<open>0012\<close>.
\<close>

theorem clean_ticket_id_spec:
  "clean_ticket_id x =
     (case spec_strip_dot x of
        [] \<Rightarrow> spec_normalize x
      | c # rest \<Rightarrow>
          if (c = CHR ''+'' \<or> c = CHR ''-'') \<and> length rest < 3
          then c # spec_pad_left 3 rest
          else spec_normalize x)
   \<and> clean_ticket_id ''901.0'' = ''0901''
   \<and> clean_ticket_id ''12'' = ''0012''"
proof (intro conjI)
  show "clean_ticket_id x =
     (case spec_strip_dot x of
        [] \<Rightarrow> spec_normalize x
      | c # rest \<Rightarrow>
          if (c = CHR ''+'' \<or> c = CHR ''-'') \<and> length rest < 3
          then c # spec_pad_left 3 rest
          else spec_normalize x)"
    unfolding clean_ticket_id_def split_on_head spec_normalize_def spec_strip_dot_def
    by (subst zfill_by_padding) (auto split: list.splits)
  show "clean_ticket_id ''901.0'' = ''0901''"
    by code_simp
  show "clean_ticket_id ''12'' = ''0012''"
    by code_simp
qed

theorem clean_ticket_id_spec_witness:
  "clean_ticket_id ''-5.0'' = ''-005'' \<and> clean_ticket_id ''7'' = ''0007''"
  using clean_ticket_id_spec [of "''-5.0''"] clean_ticket_id_spec [of "''7''"]
  by (simp add: spec_strip_dot_def spec_pad_left_def spec_normalize_def eval_nat_numeral)

text \<open>
  C6 as it is worded fails on a signed cell: the code turns \<^verbatim>\<open>-5\<close> into \<^verbatim>\<open>-005\<close>, while
  zeros put on the left give \<^verbatim>\<open>00-5\<close>.
\<close>

theorem clean_ticket_id_sign_counterexample:
  "clean_ticket_id ''-5'' \<noteq> spec_normalize ''-5''"
  by (simp add: clean_ticket_id_def zfill_def spec_normalize_def spec_pad_left_def
      spec_strip_dot_def eval_nat_numeral)

text \<open>The two cleanings agree on every string that holds no full stop.\<close>

lemma bulk_ticket_id_no_dot:
  "CHR ''.'' \<notin> set x \<Longrightarrow> bulk_ticket_id x = clean_ticket_id x"
proof -
  assume "CHR ''.'' \<notin> set x"
  then have tw: "takeWhile (\<lambda>c. c \<noteq> CHR ''.'') x = x"
    by (induction x) auto
  show ?thesis
    by (simp only: clean_ticket_id_def split_on_head bulk_ticket_id_def tw)
qed

text \<open>
  C4. The bulk upload does not cut the TicketID at the full stop: it leaves \<^verbatim>\<open>901.0\<close> as
  it is, where the cleaning at load time gives \<^verbatim>\<open>0901\<close>. An uploaded row reading
  \<^verbatim>\<open>901.0\<close> therefore sells nothing, although ticket \<^verbatim>\<open>0901\<close> is unsold, while a row
  reading \<^verbatim>\<open>901\<close> sells it.
\<close>

theorem bulk_ticket_id_differs:
  "bulk_ticket_id ''901.0'' = ''901.0''
   \<and> clean_ticket_id ''901.0'' = ''0901''
   \<and> process_bulk_sale [(''901.0'', ''Ann'')] clock [demo_ticket ''0901'' False False]
         = Inr [demo_ticket ''0901'' False False]
   \<and> process_bulk_sale [(''901'', ''Ann'')] clock [demo_ticket ''0901'' False False]
         = Inr [sell_row ''Ann'' (clock 0) (demo_ticket ''0901'' False False)]"
  by (simp add: bulk_ticket_id_def clean_ticket_id_def zfill_def process_bulk_sale_def
      demo_ticket_def sell_row_def eval_nat_numeral)

subsection \<open>Reset\<close>

text \<open>
  C7. With the password \<^verbatim>\<open>admin123\<close> the reset returns a table of the same length in
  which every row has Sold and Visited false, an empty Customer, Visitor_Seats 0 and no
  Timestamp, the other columns being kept; with any other password it returns the table
  it was given, and it raises no error in either case.
\<close>

theorem reset_database_spec:
  "(admin_pass = ''admin123'' \<longrightarrow>
      (\<exists>ts. reset_database admin_pass tickets = Inr ts \<and> length ts = length tickets \<and>
         (\<forall>i < length tickets.
             \<not> Sold (ts ! i) \<and> \<not> Visited (ts ! i) \<and> Customer (ts ! i) = [] \<and>
             Visitor_Seats (ts ! i) = 0 \<and> Timestamp (ts ! i) = None \<and>
             TicketID (ts ! i) = TicketID (tickets ! i) \<and> Type (ts ! i) = Type (tickets ! i) \<and>
             Category (ts ! i) = Category (tickets ! i) \<and> Seq (ts ! i) = Seq (tickets ! i) \<and>
             Admit (ts ! i) = Admit (tickets ! i))))
   \<and> (admin_pass \<noteq> ''admin123'' \<longrightarrow> reset_database admin_pass tickets = Inr tickets)"
  by (simp add: reset_database_def reset_row_def)

theorem reset_database_spec_witness:
  "(\<exists>ts. reset_database ''admin123'' [demo_ticket ''0901'' True True] = Inr ts \<and>
         length ts = 1 \<and> \<not> Sold (ts ! 0) \<and> \<not> Visited (ts ! 0) \<and> Customer (ts ! 0) = [] \<and>
         Visitor_Seats (ts ! 0) = 0 \<and> Timestamp (ts ! 0) = None \<and> TicketID (ts ! 0) = ''0901'')
   \<and> reset_database ''Admin123'' [demo_ticket ''0901'' True True]
         = Inr [demo_ticket ''0901'' True True]"
  using reset_database_spec [of "''admin123''" "[demo_ticket ''0901'' True True]"]
        reset_database_spec [of "''Admin123''" "[demo_ticket ''0901'' True True]"]
  by (auto simp: demo_ticket_def)

subsection \<open>The custom sort\<close>

lemma apply_keys_pairs:
  "apply_keys (map col df) = Inr keys \<Longrightarrow>
     length keys = length df \<and> (\<forall>p \<in> set (zip keys df). sort_key_of (col (snd p)) = Inr (fst p))"
proof (induction df arbitrary: keys)
  case Nil
  then show ?case by simp
next
  case (Cons r df)
  then show ?case
    by (auto split: sum.splits)
qed

lemma apply_keys_of_pairs:
  "\<forall>p \<in> set ps. sort_key_of (col (snd p)) = Inr (fst p) \<Longrightarrow>
     apply_keys (map col (map snd ps)) = Inr (map fst ps)"
  by (induction ps) auto

lemma apply_keys_int:
  "\<forall>x \<in> set xs. \<exists>n. x = SeqInt n \<Longrightarrow> \<exists>ks. apply_keys xs = Inr ks"
  by (induction xs) (auto simp: sort_key_of_def)

lemma sort_key_of_zero: "is_zero_seq x \<Longrightarrow> sort_key_of x = Inr 10"
  by (auto simp: is_zero_seq_def sort_key_of_def)

lemma sort_key_of_value:
  "sort_key_of x = Inr k \<Longrightarrow> \<not> is_zero_seq x \<Longrightarrow> seq_value x = Some k"
  by (auto simp: is_zero_seq_def sort_key_of_def seq_value_def split: seq_cell.splits if_splits)

lemma zero_not_positive: "is_zero_seq x \<Longrightarrow> seq_value x = Some 0"
  by (auto simp: is_zero_seq_def seq_value_def py_int_str_def strip_def is_space_def py_digits_def is_digit_def digit_val_def)

lemma custom_sort_sorted:
  assumes "custom_sort (Some col) df = Inr out"
  shows "mset out = mset df"
    and "\<exists>keys. apply_keys (map col out) = Inr keys \<and> sorted keys"
proof -
  from assms obtain keys where k: "apply_keys (map col df) = Inr keys"
    and out: "out = map snd (sort_key fst (zip keys df))"
    by (auto simp: custom_sort_def split: sum.splits)
  from apply_keys_pairs [OF k]
  have len: "length keys = length df"
    and pairs: "\<forall>p \<in> set (zip keys df). sort_key_of (col (snd p)) = Inr (fst p)"
    by auto
  have "mset out = image_mset snd (mset (sort_key fst (zip keys df)))"
    unfolding out by (rule mset_map)
  also have "\<dots> = image_mset snd (mset (zip keys df))"
    by (simp only: mset_sort)
  also have "\<dots> = mset (map snd (zip keys df))"
    by (rule mset_map [symmetric])
  also have "\<dots> = mset df" using len by simp
  finally show "mset out = mset df" .
  have "\<forall>p \<in> set (sort_key fst (zip keys df)). sort_key_of (col (snd p)) = Inr (fst p)"
    using pairs by simp
  from apply_keys_of_pairs [OF this]
  have "apply_keys (map col out) = Inr (map fst (sort_key fst (zip keys df)))"
    unfolding out .
  moreover have "sorted (map fst (sort_key fst (zip keys df)))"
    by (rule sorted_sort_key)
  ultimately show "\<exists>keys. apply_keys (map col out) = Inr keys \<and> sorted keys"
    by blast
qed

lemma apply_keys_nth:
  "apply_keys xs = Inr ks \<Longrightarrow> length ks = length xs \<and> (\<forall>i < length xs. sort_key_of (xs ! i) = Inr (ks ! i))"
proof (induction xs arbitrary: ks)
  case Nil
  then show ?case by simp
next
  case (Cons x xs)
  then show ?case
    by (auto split: sum.splits simp: nth_Cons split: nat.splits)
qed

lemma sorted_keys_zeros_after:
  assumes k: "apply_keys seqs = Inr keys" and s: "sorted keys"
  shows "zeros_after (positive_below 10) seqs"
  unfolding zeros_after_def
proof (intro ballI impI)
  fix i j
  assume i: "i \<in> {..<length seqs}" and j: "j \<in> {..<length seqs}"
    and h: "is_zero_seq (seqs ! i) \<and> positive_below 10 (seqs ! j)"
  from apply_keys_nth [OF k] i j
  have len: "length keys = length seqs"
    and ki: "sort_key_of (seqs ! i) = Inr (keys ! i)"
    and kj: "sort_key_of (seqs ! j) = Inr (keys ! j)"
    by auto
  from h ki have ki10: "keys ! i = 10"
    by (simp add: sort_key_of_zero)
  from h obtain n where n: "seq_value (seqs ! j) = Some n" "0 < n" "n < 10"
    by (auto simp: positive_below_def split: option.splits)
  have nz: "\<not> is_zero_seq (seqs ! j)"
    using n zero_not_positive by fastforce
  from sort_key_of_value [OF kj nz] n have kjn: "keys ! j < 10"
    by simp
  show "j < i"
  proof (rule ccontr)
    assume "\<not> j < i"
    then have "i \<le> j" by simp
    with s j len have "keys ! i \<le> keys ! j"
      by (simp add: sorted_nth_mono)
    with ki10 kjn show False by simp
  qed
qed

lemma custom_sort_total_int:
  assumes "\<forall>r \<in> set df. \<exists>n. col r = SeqInt n"
  shows "\<exists>out. custom_sort (Some col) df = Inr out"
proof -
  from assms have "\<forall>x \<in> set (map col df). \<exists>n. x = SeqInt n" by simp
  from apply_keys_int [OF this] obtain ks where "apply_keys (map col df) = Inr ks" ..
  then show ?thesis by (simp add: custom_sort_def)
qed

lemma custom_sort_3_0_1:
  assumes "map col df = [SeqInt 3, SeqInt 0, SeqInt 1]"
  shows "\<exists>out. custom_sort (Some col) df = Inr out \<and> map col out = [SeqInt 1, SeqInt 3, SeqInt 0]"
proof -
  from assms obtain a b c where df: "df = [a, b, c]"
    and c: "col a = SeqInt 3" "col b = SeqInt 0" "col c = SeqInt 1"
    by (auto simp: map_eq_Cons_conv)
  show ?thesis
    by (simp add: df c custom_sort_def sort_key_of_def)
qed

text \<open>
  C3, as amended. A frame without a Seq column is returned as it is. Otherwise, when the
  sort returns, its output holds the rows of the input, in ascending order of the key,
  where the key of a row is 10 when its Seq is the number 0 or the string \<^verbatim>\<open>0\<close> and the
  number its Seq stands for otherwise; so every zero row is placed after every row whose
  Seq is positive and below 10. The sort returns on every frame whose Seq cells are
  numbers, and on every frame whose Seq column reads 3, 0, 1 the output reads 1, 3, 0.
\<close>

theorem custom_sort_spec:
  "custom_sort None df = Inr df
   \<and> (custom_sort (Some col) df = Inr out \<longrightarrow>
        mset out = mset df \<and>
        (\<exists>keys. apply_keys (map col out) = Inr keys \<and> sorted keys) \<and>
        zeros_after (positive_below 10) (map col out))
   \<and> ((\<forall>r \<in> set df. \<exists>n. col r = SeqInt n) \<longrightarrow> (\<exists>out'. custom_sort (Some col) df = Inr out'))
   \<and> (map col df = [SeqInt 3, SeqInt 0, SeqInt 1] \<longrightarrow>
        (\<exists>out'. custom_sort (Some col) df = Inr out' \<and>
                map col out' = [SeqInt 1, SeqInt 3, SeqInt 0]))"
proof (intro conjI impI)
  show "custom_sort None df = Inr df"
    by (simp add: custom_sort_def)
next
  assume a: "custom_sort (Some col) df = Inr out"
  show "mset out = mset df"
    by (rule custom_sort_sorted(1) [OF a])
  from custom_sort_sorted(2) [OF a]
  show k: "\<exists>keys. apply_keys (map col out) = Inr keys \<and> sorted keys" .
  from k show "zeros_after (positive_below 10) (map col out)"
    using sorted_keys_zeros_after by blast
next
  assume "\<forall>r \<in> set df. \<exists>n. col r = SeqInt n"
  then show "\<exists>out'. custom_sort (Some col) df = Inr out'"
    by (rule custom_sort_total_int)
next
  assume "map col df = [SeqInt 3, SeqInt 0, SeqInt 1]"
  then show "\<exists>out'. custom_sort (Some col) df = Inr out' \<and>
                map col out' = [SeqInt 1, SeqInt 3, SeqInt 0]"
    by (rule custom_sort_3_0_1)
qed

theorem custom_sort_spec_witness:
  "custom_sort (Some id) [SeqInt 3, SeqStr ''0'', SeqInt 1] = Inr [SeqInt 1, SeqInt 3, SeqStr ''0'']
   \<and> mset [SeqInt 1, SeqInt 3, SeqStr ''0''] = mset [SeqInt 3, SeqStr ''0'', SeqInt 1]
   \<and> zeros_after (positive_below 10) [SeqInt 1, SeqInt 3, SeqStr ''0'']
   \<and> (\<exists>out'. custom_sort (Some id) [SeqInt 3, SeqInt 0, SeqInt 1] = Inr out' \<and>
               map id out' = [SeqInt 1, SeqInt 3, SeqInt 0])"
proof -
  have run: "custom_sort (Some id) [SeqInt 3, SeqStr ''0'', SeqInt 1]
               = Inr [SeqInt 1, SeqInt 3, SeqStr ''0'']"
    by (simp add: custom_sort_def sort_key_of_def)
  from custom_sort_spec [of "[SeqInt 3, SeqStr ''0'', SeqInt 1]" id "[SeqInt 1, SeqInt 3, SeqStr ''0'']"] run
  have "mset [SeqInt 1, SeqInt 3, SeqStr ''0''] = mset [SeqInt 3, SeqStr ''0'', SeqInt 1]"
    and "zeros_after (positive_below 10) (map id [SeqInt 1, SeqInt 3, SeqStr ''0''])"
    by blast+
  moreover from custom_sort_spec [of "[SeqInt 3, SeqInt 0, SeqInt 1]" id]
  have "\<exists>out'. custom_sort (Some id) [SeqInt 3, SeqInt 0, SeqInt 1] = Inr out' \<and>
               map id out' = [SeqInt 1, SeqInt 3, SeqInt 0]"
    by simp
  ultimately show ?thesis using run by simp
qed

text \<open>
  C3 as it is worded fails on a Seq above 10: the zero row has the key 10 and is placed
  before the row whose Seq is 11, not after every positive Seq.
\<close>

theorem custom_sort_zero_counterexample:
  "custom_sort (Some id) [SeqInt 11, SeqInt 0] = Inr [SeqInt 0, SeqInt 11]
   \<and> \<not> zeros_after is_positive_seq [SeqInt 0, SeqInt 11]"
  by (simp add: custom_sort_def sort_key_of_def zeros_after_def is_positive_seq_def
      seq_value_def is_zero_seq_def lessThan_Suc eval_nat_numeral)

subsection \<open>The dashboard summary\<close>

lemma sum_list_sold:
  "sum_list (map (\<lambda>t. if Sold t then 1 else 0) rows) = (of_nat (length (filter Sold rows)) :: int64)"
  by (induction rows) auto

lemma row_key_agg: "row_key (agg (k, rows)) = k"
  by (cases k) (simp add: agg_def row_key_def Let_def)

lemma agg_columns:
  "Total_Tickets (agg (k, rows)) = of_nat (length rows)"
  "Tickets_Sold (agg (k, rows)) = of_nat (length (filter Sold rows))"
  "Total_Seats (agg (k, rows)) = Total_Tickets (agg (k, rows)) * word_of_int (gAdmit (agg (k, rows)))"
  "Balance_Tickets (agg (k, rows)) = Total_Tickets (agg (k, rows)) - Tickets_Sold (agg (k, rows))"
  by (cases k; simp add: agg_def Let_def sum_list_sold)+

lemma summary_rows:
  assumes "g \<in> set (summary df)"
  shows "g = agg (row_key g, filter (\<lambda>t. key_of t = row_key g) df) \<and> row_key g \<in> key_of ` set df"
proof -
  from assms obtain x where x: "x \<in> set df"
    and gx: "g = agg (key_of x, filter (\<lambda>t. key_of t = key_of x) df)"
    unfolding summary_def groupby_def by (simp add: image_iff) blast
  define k where "k = key_of x"
  from x have k: "k \<in> set (map key_of df)" by (simp add: k_def)
  from gx have g: "g = agg (k, filter (\<lambda>t. key_of t = k) df)" by (simp add: k_def)
  from g have "row_key g = k" by (simp add: row_key_agg)
  with k g show ?thesis by auto
qed

lemma summary_group_row:
  assumes "g \<in> set (summary df)"
  shows "group_row_wrapped df g"
proof -
  let ?rows = "filter (\<lambda>t. key_of t = row_key g) df"
  from summary_rows [OF assms] have g: "g = agg (row_key g, ?rows)" by simp
  have "Total_Seats (agg (row_key g, ?rows))
          = Total_Tickets (agg (row_key g, ?rows)) * word_of_int (gAdmit (agg (row_key g, ?rows)))"
    by (rule agg_columns)
  then have a: "Total_Seats g = Total_Tickets g * word_of_int (gAdmit g)" using g by simp
  have "Balance_Tickets (agg (row_key g, ?rows))
          = Total_Tickets (agg (row_key g, ?rows)) - Tickets_Sold (agg (row_key g, ?rows))"
    by (rule agg_columns)
  then have b: "Balance_Tickets g = Total_Tickets g - Tickets_Sold g" using g by simp
  have "Total_Tickets (agg (row_key g, ?rows)) = of_nat (length ?rows)"
    by (rule agg_columns)
  then have c: "Total_Tickets g = of_nat (length ?rows)" using g by simp
  have "Tickets_Sold (agg (row_key g, ?rows)) = of_nat (length (filter Sold ?rows))"
    by (rule agg_columns)
  then have "Tickets_Sold g = of_nat (length (filter Sold ?rows))" using g by simp
  then have d: "Tickets_Sold g = of_nat (length (filter (\<lambda>t. key_of t = row_key g \<and> Sold t) df))"
    by simp
  from a b c d show ?thesis unfolding group_row_wrapped_def by blast
qed

lemma sint_word_of_int64: "in_int64 k \<Longrightarrow> sint (word_of_int k :: int64) = k"
  by (simp add: in_int64_def sint_sbintrunc' signed_take_bit_int_eq_self)

lemma sint_of_nat_int64: "n < 2 ^ 63 \<Longrightarrow> sint (of_nat n :: int64) = int n"
proof -
  assume "n < 2 ^ 63"
  then have "int n < 2 ^ 63"
    by (metis of_nat_less_iff of_nat_numeral of_nat_power)
  then have "in_int64 (int n)" by (simp add: in_int64_def)
  from sint_word_of_int64 [OF this] show ?thesis by simp
qed

lemma group_row_numbers:
  assumes w: "group_row_wrapped df g" and len: "length df < 2 ^ 63"
  shows "sint (Total_Tickets g) = int (length (filter (\<lambda>t. key_of t = row_key g) df))"
    and "sint (Tickets_Sold g) = int (length (filter (\<lambda>t. key_of t = row_key g \<and> Sold t) df))"
    and "sint (Balance_Tickets g) = sint (Total_Tickets g) - sint (Tickets_Sold g)"
    and "in_int64 (sint (Total_Tickets g) * gAdmit g) \<Longrightarrow>
           sint (Total_Seats g) = sint (Total_Tickets g) * gAdmit g"
proof -
  let ?n = "length (filter (\<lambda>t. key_of t = row_key g) df)"
  let ?m = "length (filter (\<lambda>t. key_of t = row_key g \<and> Sold t) df)"
  have n_le: "?n \<le> length df" by (rule length_filter_le)
  have "?m = length (filter Sold (filter (\<lambda>t. key_of t = row_key g) df))" by simp
  then have m_le: "?m \<le> ?n" by (metis length_filter_le)
  from n_le m_le len have n: "?n < 2 ^ 63" and m: "?m < 2 ^ 63" and d: "?n - ?m < 2 ^ 63"
    by linarith+
  from w have tt: "Total_Tickets g = of_nat ?n" and ts: "Tickets_Sold g = of_nat ?m"
    and bal: "Balance_Tickets g = Total_Tickets g - Tickets_Sold g"
    and seats: "Total_Seats g = Total_Tickets g * word_of_int (gAdmit g)"
    by (simp_all add: group_row_wrapped_def)
  show 1: "sint (Total_Tickets g) = int ?n"
    by (simp only: tt sint_of_nat_int64 [OF n])
  show 2: "sint (Tickets_Sold g) = int ?m"
    by (simp only: ts sint_of_nat_int64 [OF m])
  have "Balance_Tickets g = of_nat (?n - ?m)"
    unfolding bal tt ts using m_le by (simp only: of_nat_diff)
  then have "sint (Balance_Tickets g) = int (?n - ?m)"
    by (simp only: sint_of_nat_int64 [OF d])
  with 1 2 m_le show "sint (Balance_Tickets g) = sint (Total_Tickets g) - sint (Tickets_Sold g)"
    by (simp only: of_nat_diff)
  assume r: "in_int64 (sint (Total_Tickets g) * gAdmit g)"
  have "(of_nat ?n :: int64) * word_of_int (gAdmit g) = word_of_int (int ?n * gAdmit g)"
    by simp
  then have "Total_Seats g = word_of_int (int ?n * gAdmit g)"
    unfolding seats tt .
  moreover from r 1 have "in_int64 (int ?n * gAdmit g)" by simp
  ultimately have "sint (Total_Seats g) = int ?n * gAdmit g"
    by (simp only: sint_word_of_int64)
  with 1 show "sint (Total_Seats g) = sint (Total_Tickets g) * gAdmit g" by simp
qed

lemma summary_keys: "map row_key (summary df) = remdups (map key_of df)"
  by (simp add: summary_def groupby_def row_key_agg comp_def)

lemma summary_covers: "t \<in> set df \<Longrightarrow> \<exists>g \<in> set (summary df). row_key g = key_of t"
proof -
  assume "t \<in> set df"
  then have "key_of t \<in> set (map row_key (summary df))"
    by (simp add: summary_keys)
  then show ?thesis by auto
qed

text \<open>
  C5, as amended. The columns of the summary are 64-bit integers. In every row of the
  summary Total_Seats equals Total_Tickets times Admit and Balance_Tickets equals
  Total_Tickets less Tickets_Sold in wrap-around arithmetic, Total_Tickets being the
  number of rows of the table with the key of the group and Tickets_Sold the number of
  those with Sold true. On a table of fewer than \<open>2 ^ 63\<close> rows the two counts and the
  balance are these numbers exactly, and Total_Seats is exactly Total_Tickets times Admit
  whenever that product lies in the 64-bit range. The custom sort keeps the rows of the
  summary, every row of the table falls in a group, and no two rows of the summary have
  the same key.
\<close>

theorem summary_spec:
  "(\<forall>g \<in> set (summary df).
       group_row_wrapped df g \<and>
       (length df < 2 ^ 63 \<longrightarrow>
          sint (Total_Tickets g) = int (length (filter (\<lambda>t. key_of t = row_key g) df)) \<and>
          sint (Tickets_Sold g) = int (length (filter (\<lambda>t. key_of t = row_key g \<and> Sold t) df)) \<and>
          sint (Balance_Tickets g) = sint (Total_Tickets g) - sint (Tickets_Sold g) \<and>
          (in_int64 (sint (Total_Tickets g) * gAdmit g) \<longrightarrow>
             sint (Total_Seats g) = sint (Total_Tickets g) * gAdmit g \<and> group_row_ok df g)))
   \<and> (dashboard_summary df = Inr out \<longrightarrow> mset out = mset (summary df))
   \<and> (\<forall>t \<in> set df. \<exists>g \<in> set (summary df). row_key g = key_of t)
   \<and> distinct (map row_key (summary df))"
proof (intro conjI impI ballI)
  fix g assume g: "g \<in> set (summary df)"
  show w: "group_row_wrapped df g" using g by (rule summary_group_row)
  assume len: "length df < 2 ^ 63"
  show 1: "sint (Total_Tickets g) = int (length (filter (\<lambda>t. key_of t = row_key g) df))"
    by (rule group_row_numbers(1) [OF w len])
  show 2: "sint (Tickets_Sold g) = int (length (filter (\<lambda>t. key_of t = row_key g \<and> Sold t) df))"
    by (rule group_row_numbers(2) [OF w len])
  show 3: "sint (Balance_Tickets g) = sint (Total_Tickets g) - sint (Tickets_Sold g)"
    by (rule group_row_numbers(3) [OF w len])
  assume r: "in_int64 (sint (Total_Tickets g) * gAdmit g)"
  show 4: "sint (Total_Seats g) = sint (Total_Tickets g) * gAdmit g"
    by (rule group_row_numbers(4) [OF w len r])
  from 1 2 3 4 show "group_row_ok df g"
    unfolding group_row_ok_def by blast
next
  assume "dashboard_summary df = Inr out"
  then show "mset out = mset (summary df)"
    unfolding dashboard_summary_def by (rule custom_sort_sorted(1))
next
  fix t assume "t \<in> set df"
  then show "\<exists>g \<in> set (summary df). row_key g = key_of t" by (rule summary_covers)
next
  show "distinct (map row_key (summary df))" by (simp add: summary_keys)
qed

theorem summary_spec_witness:
  "summary [demo_ticket ''0901'' True False, demo_ticket ''0902'' False False]
     = [\<lparr>gSeq = SeqInt 1, gType = ''Public'', gCategory = ''Gold'', gAdmit = 2,
         Total_Tickets = 2, Tickets_Sold = 1, Total_Visitors = 0, Total_Seats = 4,
         Seats_sold = 2, Balance_Tickets = 1, Balance_Seats = 2, Balance_Visitors = 2\<rparr>]
   \<and> group_row_ok [demo_ticket ''0901'' True False, demo_ticket ''0902'' False False]
        \<lparr>gSeq = SeqInt 1, gType = ''Public'', gCategory = ''Gold'', gAdmit = 2,
         Total_Tickets = 2, Tickets_Sold = 1, Total_Visitors = 0, Total_Seats = 4,
         Seats_sold = 2, Balance_Tickets = 1, Balance_Seats = 2, Balance_Visitors = 2\<rparr>"
proof -
  let ?T = "[demo_ticket ''0901'' True False, demo_ticket ''0902'' False False]"
  let ?g = "\<lparr>gSeq = SeqInt 1, gType = ''Public'', gCategory = ''Gold'', gAdmit = 2,
         Total_Tickets = 2, Tickets_Sold = 1, Total_Visitors = 0, Total_Seats = 4,
         Seats_sold = 2, Balance_Tickets = 1, Balance_Seats = 2, Balance_Visitors = (2 :: int64)\<rparr>"
  have run: "summary ?T = [?g]"
    by (simp add: summary_def groupby_def agg_def key_of_def demo_ticket_def)
  have len: "length ?T < 2 ^ 63" by simp
  have r: "in_int64 (sint (Total_Tickets ?g) * gAdmit ?g)" by (simp add: in_int64_def)
  from summary_spec [of ?T, THEN conjunct1] run have
    "length ?T < 2 ^ 63 \<longrightarrow>
       sint (Total_Tickets ?g) = int (length (filter (\<lambda>t. key_of t = row_key ?g) ?T)) \<and>
       sint (Tickets_Sold ?g) = int (length (filter (\<lambda>t. key_of t = row_key ?g \<and> Sold t) ?T)) \<and>
       sint (Balance_Tickets ?g) = sint (Total_Tickets ?g) - sint (Tickets_Sold ?g) \<and>
       (in_int64 (sint (Total_Tickets ?g) * gAdmit ?g) \<longrightarrow>
          sint (Total_Seats ?g) = sint (Total_Tickets ?g) * gAdmit ?g \<and> group_row_ok ?T ?g)"
    by simp
  with len r have "group_row_ok ?T ?g" by blast
  with run show ?thesis by (rule conjI)
qed

text \<open>
  C5 as it is worded fails where the product leaves the 64-bit range: for two tickets of
  one group with Admit \<open>2 ^ 62\<close> the summary shows Total_Tickets 2 and Total_Seats
  \<open>- (2 ^ 63)\<close>, not \<open>2 ^ 63\<close>.
\<close>

theorem summary_overflow_counterexample:
  "map (\<lambda>g. (sint (Total_Tickets g), gAdmit g, sint (Total_Seats g)))
       (summary [big_ticket ''0901'', big_ticket ''0902''])
     = [(2, 4611686018427387904, - 9223372036854775808)]
   \<and> \<not> list_all (group_row_ok [big_ticket ''0901'', big_ticket ''0902''])
         (summary [big_ticket ''0901'', big_ticket ''0902''])"
proof -
  have run: "summary [big_ticket ''0901'', big_ticket ''0902'']
     = [\<lparr>gSeq = SeqInt 1, gType = ''Public'', gCategory = ''Gold'', gAdmit = 4611686018427387904,
         Total_Tickets = 2, Tickets_Sold = 0, Total_Visitors = 0,
         Total_Seats = 9223372036854775808,
         Seats_sold = 0, Balance_Tickets = 2, Balance_Seats = 9223372036854775808,
         Balance_Visitors = 0\<rparr>]"
    by (simp add: summary_def groupby_def agg_def key_of_def demo_ticket_def big_ticket_def)
  show ?thesis
    unfolding run by (simp add: group_row_ok_def)
qed

subsection \<open>Locating a row, and the manual sale\<close>

lemma first_index_Some:
  "first_index P xs = Some i \<Longrightarrow> i < length xs \<and> P (xs ! i) \<and> (\<forall>j < i. \<not> P (xs ! j))"
proof (induction xs arbitrary: i)
  case Nil
  then show ?case by simp
next
  case (Cons x xs)
  show ?case
  proof (cases "P x")
    case True
    with Cons.prems show ?thesis by simp
  next
    case False
    with Cons.prems obtain i' where i': "first_index P xs = Some i'" "i = Suc i'"
      by auto
    from Cons.IH [OF i'(1)] False i'(2) show ?thesis
      by (auto simp: nth_Cons split: nat.splits)
  qed
qed

lemma first_index_None: "first_index P xs = None \<longleftrightarrow> (\<forall>x \<in> set xs. \<not> P x)"
  by (induction xs) auto

lemma first_index_exists:
  "x \<in> set xs \<Longrightarrow> P x \<Longrightarrow> \<exists>i. first_index P xs = Some i"
  using first_index_None [of P xs] by (cases "first_index P xs") auto

lemma first_index_map:
  "first_index (\<lambda>t. P (f t)) xs = first_index P (map f xs)"
  by (induction xs) auto

lemma first_index_same_ids:
  assumes "map TicketID xs = map TicketID ys"
  shows "first_index (\<lambda>t. TicketID t = tid) xs = first_index (\<lambda>t. TicketID t = tid) ys"
  using first_index_map [of "\<lambda>s. s = tid" TicketID xs]
        first_index_map [of "\<lambda>s. s = tid" TicketID ys] assms
  by simp

lemma sell_row_fields:
  "Sold (sell_row cust now t)" "Customer (sell_row cust now t) = cust"
  "Timestamp (sell_row cust now t) = Some now" "TicketID (sell_row cust now t) = TicketID t"
  "Visited (sell_row cust now t) = Visited t" "Admit (sell_row cust now t) = Admit t"
  "Type (sell_row cust now t) = Type t" "Category (sell_row cust now t) = Category t"
  "Visitor_Seats (sell_row cust now t) = Visitor_Seats t" "Seq (sell_row cust now t) = Seq t"
  by (simp_all add: sell_row_def)

lemma checkin_row_fields:
  "Visited (checkin_row v now t)" "Visitor_Seats (checkin_row v now t) = v"
  "Timestamp (checkin_row v now t) = Some now" "TicketID (checkin_row v now t) = TicketID t"
  "Sold (checkin_row v now t) = Sold t" "Admit (checkin_row v now t) = Admit t"
  "Type (checkin_row v now t) = Type t" "Category (checkin_row v now t) = Category t"
  "Customer (checkin_row v now t) = Customer t" "Seq (checkin_row v now t) = Seq t"
  by (simp_all add: checkin_row_def)

lemma confirm_sale_Inr:
  assumes "confirm_sale tid cust now tickets = Inr tickets'"
  shows "\<exists>idx. first_index (\<lambda>t. TicketID t = tid) tickets = Some idx \<and> idx < length tickets \<and>
           TicketID (tickets ! idx) = tid \<and> (\<forall>j < idx. TicketID (tickets ! j) \<noteq> tid) \<and>
           tickets' = tickets[idx := sell_row cust now (tickets ! idx)]"
proof -
  from assms obtain idx where i: "first_index (\<lambda>t. TicketID t = tid) tickets = Some idx"
    and t: "tickets' = tickets[idx := sell_row cust now (tickets ! idx)]"
    by (auto simp: confirm_sale_def split: option.splits)
  from first_index_Some [OF i] i t show ?thesis by blast
qed

lemma confirm_entry_Inr:
  assumes "confirm_entry tid v now tickets = Inr tickets'"
  shows "\<exists>idx. first_index (\<lambda>t. TicketID t = tid) tickets = Some idx \<and> idx < length tickets \<and>
           TicketID (tickets ! idx) = tid \<and> (\<forall>j < idx. TicketID (tickets ! j) \<noteq> tid) \<and>
           tickets' = tickets[idx := checkin_row v now (tickets ! idx)]"
proof -
  from assms obtain idx where i: "first_index (\<lambda>t. TicketID t = tid) tickets = Some idx"
    and t: "tickets' = tickets[idx := checkin_row v now (tickets ! idx)]"
    by (auto simp: confirm_entry_def split: option.splits)
  from first_index_Some [OF i] i t show ?thesis by blast
qed

lemma map_update_same:
  "i < length xs \<Longrightarrow> f y = f (xs ! i) \<Longrightarrow> map f (xs[i := y]) = map f xs"
  by (simp add: map_update list_update_same_conv)

lemma confirm_sale_ids:
  "confirm_sale tid cust now tickets = Inr tickets' \<Longrightarrow> map TicketID tickets' = map TicketID tickets"
  by (drule confirm_sale_Inr) (auto simp: map_update_same sell_row_fields)

lemma confirm_sale_sold_first:
  assumes "first_index (\<lambda>t. TicketID t = tid) tickets = Some idx" and "Sold (tickets ! idx)"
  shows "map Sold (sheet_after tickets (confirm_sale tid cust now tickets)) = map Sold tickets"
proof -
  from first_index_Some [OF assms(1)] have "idx < length tickets" by simp
  then have "map Sold (tickets[idx := sell_row cust now (tickets ! idx)]) = map Sold tickets"
    using assms(2) by (intro map_update_same) (simp_all add: sell_row_fields)
  then show ?thesis
    by (simp add: confirm_sale_def sheet_after_def assms(1))
qed

lemma confirm_sale_all_sold:
  assumes "\<forall>t \<in> set tickets. TicketID t = tid \<longrightarrow> Sold t"
  shows "map Sold (sheet_after tickets (confirm_sale tid cust now tickets)) = map Sold tickets"
proof (cases "first_index (\<lambda>t. TicketID t = tid) tickets")
  case None
  then show ?thesis by (simp add: confirm_sale_def sheet_after_def)
next
  case (Some idx)
  from first_index_Some [OF Some] assms have "Sold (tickets ! idx)"
    by (metis nth_mem)
  with Some show ?thesis by (rule confirm_sale_sold_first)
qed

lemma manual_sale_all_sold:
  assumes "\<forall>t \<in> set tickets. TicketID t = tid \<longrightarrow> Sold t"
  shows "manual_sale s_type s_cat tid cust now tickets = Inr tickets"
proof -
  from assms have "tid \<notin> set (avail s_type s_cat tickets)"
    by (auto simp: avail_def)
  then show ?thesis by (simp add: manual_sale_def)
qed

lemma confirm_sale_twice:
  assumes "confirm_sale tid cust now tickets = Inr tickets'"
  shows "map Sold (sheet_after tickets' (confirm_sale tid cust' now' tickets')) = map Sold tickets'"
proof -
  from confirm_sale_Inr [OF assms] obtain idx
    where i: "first_index (\<lambda>t. TicketID t = tid) tickets = Some idx" "idx < length tickets"
      and t: "tickets' = tickets[idx := sell_row cust now (tickets ! idx)]"
    by blast
  from confirm_sale_ids [OF assms]
  have "first_index (\<lambda>t. TicketID t = tid) tickets' = first_index (\<lambda>t. TicketID t = tid) tickets"
    by (rule first_index_same_ids)
  with i have i': "first_index (\<lambda>t. TicketID t = tid) tickets' = Some idx" by simp
  from t i(2) have "Sold (tickets' ! idx)" by (simp add: sell_row_fields)
  with i' show ?thesis by (rule confirm_sale_sold_first)
qed

lemma manual_sale_cases:
  "manual_sale s_type s_cat tid cust now tickets = Inr tickets \<or>
   manual_sale s_type s_cat tid cust now tickets = confirm_sale tid cust now tickets"
  by (simp add: manual_sale_def)

text \<open>
  C2. When every row that bears the TicketID is already sold, the submit step of the sale
  leaves the Sold column of the table as it was (also when no row bears the ID, where it
  raises and nothing is saved), and the sale form does not offer the ID, so the table is
  returned as it was. After a sale that went through, a second sale with the same ID,
  by the submit step or by the form, leaves the Sold column as the first sale left it.
\<close>

theorem sell_sold_unchanged:
  "((\<forall>t \<in> set tickets. TicketID t = tid \<longrightarrow> Sold t) \<longrightarrow>
       map Sold (sheet_after tickets (confirm_sale tid cust now tickets)) = map Sold tickets \<and>
       manual_sale s_type s_cat tid cust now tickets = Inr tickets)
   \<and> (confirm_sale tid cust now tickets = Inr tickets' \<longrightarrow>
       map Sold (sheet_after tickets' (confirm_sale tid cust' now' tickets')) = map Sold tickets' \<and>
       map Sold (sheet_after tickets' (manual_sale s_type s_cat tid cust' now' tickets'))
         = map Sold tickets')"
proof (intro conjI impI)
  assume a: "\<forall>t \<in> set tickets. TicketID t = tid \<longrightarrow> Sold t"
  show "map Sold (sheet_after tickets (confirm_sale tid cust now tickets)) = map Sold tickets"
    by (rule confirm_sale_all_sold [OF a])
  show "manual_sale s_type s_cat tid cust now tickets = Inr tickets"
    by (rule manual_sale_all_sold [OF a])
next
  assume b: "confirm_sale tid cust now tickets = Inr tickets'"
  show c: "map Sold (sheet_after tickets' (confirm_sale tid cust' now' tickets')) = map Sold tickets'"
    by (rule confirm_sale_twice [OF b])
  from manual_sale_cases [of s_type s_cat tid cust' now' tickets'] c
  show "map Sold (sheet_after tickets' (manual_sale s_type s_cat tid cust' now' tickets'))
         = map Sold tickets'"
    by (auto simp: sheet_after_def)
qed

theorem sell_sold_unchanged_witness:
  "map Sold (sheet_after [demo_ticket ''0901'' True False, demo_ticket ''0902'' False False]
       (confirm_sale ''0901'' ''Bob'' ''t1'' [demo_ticket ''0901'' True False, demo_ticket ''0902'' False False]))
     = [True, False]
   \<and> manual_sale ''Public'' ''Gold'' ''0901'' ''Bob'' ''t1''
        [demo_ticket ''0901'' True False, demo_ticket ''0902'' False False]
     = Inr [demo_ticket ''0901'' True False, demo_ticket ''0902'' False False]
   \<and> confirm_sale ''0902'' ''Bob'' ''t1'' [demo_ticket ''0901'' True False, demo_ticket ''0902'' False False]
     = Inr [demo_ticket ''0901'' True False, sell_row ''Bob'' ''t1'' (demo_ticket ''0902'' False False)]
   \<and> map Sold (sheet_after [demo_ticket ''0901'' True False, sell_row ''Bob'' ''t1'' (demo_ticket ''0902'' False False)]
       (confirm_sale ''0902'' ''Cy'' ''t2''
          [demo_ticket ''0901'' True False, sell_row ''Bob'' ''t1'' (demo_ticket ''0902'' False False)]))
     = [True, True]"
proof -
  let ?T = "[demo_ticket ''0901'' True False, demo_ticket ''0902'' False False]"
  let ?T' = "[demo_ticket ''0901'' True False, sell_row ''Bob'' ''t1'' (demo_ticket ''0902'' False False)]"
  have h: "\<forall>t \<in> set ?T. TicketID t = ''0901'' \<longrightarrow> Sold t"
    by (simp add: demo_ticket_def)
  have run: "confirm_sale ''0902'' ''Bob'' ''t1'' ?T = Inr ?T'"
    by (simp add: confirm_sale_def demo_ticket_def)
  from sell_sold_unchanged [of ?T "''0901''" "''Bob''" "''t1''" "''Public''" "''Gold''"] h
  have 1: "map Sold (sheet_after ?T (confirm_sale ''0901'' ''Bob'' ''t1'' ?T)) = map Sold ?T"
    and 2: "manual_sale ''Public'' ''Gold'' ''0901'' ''Bob'' ''t1'' ?T = Inr ?T"
    by blast+
  from sell_sold_unchanged [of ?T "''0902''" "''Bob''" "''t1''" "''Public''" "''Gold''" ?T' "''Cy''" "''t2''"] run
  have 3: "map Sold (sheet_after ?T' (confirm_sale ''0902'' ''Cy'' ''t2'' ?T')) = map Sold ?T'"
    by blast
  from 1 2 3 run show ?thesis
    by (simp add: demo_ticket_def sell_row_def)
qed

subsection \<open>Which row an operation changes\<close>

lemma avail_set:
  "set (avail s_type s_cat tickets) =
     {TicketID t | t. t \<in> set tickets \<and> Type t = s_type \<and> Category t = s_cat \<and> \<not> Sold t}"
  by (auto simp: avail_def)

lemma elig_set:
  "set (elig v_type v_cat tickets) =
     {TicketID t | t. t \<in> set tickets \<and> Type t = v_type \<and> Category t = v_cat \<and> Sold t \<and>
        \<not> Visited t}"
  by (auto simp: elig_def)

lemma confirm_sale_found:
  assumes "x \<in> set tickets" and "TicketID x = tid"
  shows "\<exists>idx. first_index (\<lambda>t. TicketID t = tid) tickets = Some idx \<and>
           confirm_sale tid cust now tickets = Inr (tickets[idx := sell_row cust now (tickets ! idx)])"
proof -
  from first_index_exists [of x tickets "\<lambda>t. TicketID t = tid"] assms
  obtain idx where "first_index (\<lambda>t. TicketID t = tid) tickets = Some idx" by blast
  then show ?thesis by (simp add: confirm_sale_def)
qed

lemma confirm_entry_found:
  assumes "x \<in> set tickets" and "TicketID x = tid"
  shows "\<exists>idx. first_index (\<lambda>t. TicketID t = tid) tickets = Some idx \<and>
           confirm_entry tid v now tickets = Inr (tickets[idx := checkin_row v now (tickets ! idx)])"
proof -
  from first_index_exists [of x tickets "\<lambda>t. TicketID t = tid"] assms
  obtain idx where "first_index (\<lambda>t. TicketID t = tid) tickets = Some idx" by blast
  then show ?thesis by (simp add: confirm_entry_def)
qed

lemma confirm_sale_row:
  assumes "confirm_sale tid cust now tickets = Inr tickets'"
  shows "\<exists>idx < length tickets. TicketID (tickets ! idx) = tid \<and>
          (\<forall>j < idx. TicketID (tickets ! j) \<noteq> tid) \<and>
          tickets' = tickets[idx := (tickets ! idx)\<lparr>Sold := True, Customer := cust,
                                                   Timestamp := Some now\<rparr>]"
  using confirm_sale_Inr [OF assms] unfolding sell_row_def by blast

lemma confirm_entry_row:
  assumes "confirm_entry tid v_count now tickets = Inr tickets'"
  shows "\<exists>idx < length tickets. TicketID (tickets ! idx) = tid \<and>
          (\<forall>j < idx. TicketID (tickets ! j) \<noteq> tid) \<and>
          tickets' = tickets[idx := (tickets ! idx)\<lparr>Visited := True, Visitor_Seats := v_count,
                                                   Timestamp := Some now\<rparr>]"
  using confirm_entry_Inr [OF assms] unfolding checkin_row_def by blast

text \<open>
  C10. The submit steps of the sale and of the check-in rewrite the first row in table
  order whose TicketID equals the chosen ID, and no other row: the sale sets its Sold,
  Customer and Timestamp, the check-in its Visited, Visitor_Seats and Timestamp. They go
  through as soon as any row bears the ID, whatever its flags; only the lists of offered
  IDs are filtered (unsold rows of the chosen type and category for the sale, sold and
  unvisited ones for the check-in). With a TicketID that occurs twice the rewritten row
  can therefore be another row than the one that made the ID eligible. In the first table
  below the ID is offered for sale because of the unsold second row, and the sale gives
  the sold first row a new customer and time and leaves the second row unsold; in the
  second table the ID is offered for check-in because of the sold second row, and the
  check-in marks the unsold first row as visited and leaves the second row unvisited.
\<close>

theorem lookup_by_ticket_id:
  "(confirm_sale tid cust now tickets = Inr tickets' \<longrightarrow>
      (\<exists>idx < length tickets. TicketID (tickets ! idx) = tid \<and>
          (\<forall>j < idx. TicketID (tickets ! j) \<noteq> tid) \<and>
          tickets' = tickets[idx := (tickets ! idx)\<lparr>Sold := True, Customer := cust,
                                                   Timestamp := Some now\<rparr>]))
   \<and> (confirm_entry tid v_count now tickets = Inr tickets'' \<longrightarrow>
      (\<exists>idx < length tickets. TicketID (tickets ! idx) = tid \<and>
          (\<forall>j < idx. TicketID (tickets ! j) \<noteq> tid) \<and>
          tickets'' = tickets[idx := (tickets ! idx)\<lparr>Visited := True, Visitor_Seats := v_count,
                                                    Timestamp := Some now\<rparr>]))
   \<and> ((\<exists>x \<in> set tickets. TicketID x = tid) \<longrightarrow>
        (\<exists>ts. confirm_sale tid cust now tickets = Inr ts) \<and>
        (\<exists>ts. confirm_entry tid v_count now tickets = Inr ts))
   \<and> set (avail s_type s_cat tickets) =
        {TicketID t | t. t \<in> set tickets \<and> Type t = s_type \<and> Category t = s_cat \<and> \<not> Sold t}
   \<and> set (elig s_type s_cat tickets) =
        {TicketID t | t. t \<in> set tickets \<and> Type t = s_type \<and> Category t = s_cat \<and> Sold t \<and>
           \<not> Visited t}
   \<and> (avail ''Public'' ''Gold'' [demo_ticket ''0901'' True True, demo_ticket ''0901'' False False]
         = [''0901''] \<and>
      Sold (demo_ticket ''0901'' True True) \<and> \<not> Sold (demo_ticket ''0901'' False False) \<and>
      manual_sale ''Public'' ''Gold'' ''0901'' ''Bob'' ''t1''
          [demo_ticket ''0901'' True True, demo_ticket ''0901'' False False]
         = Inr [\<lparr>TicketID = ''0901'', Type = ''Public'', Category = ''Gold'', Seq = SeqInt 1,
                  Admit = 2, Sold = True, Visited = True, Customer = ''Bob'', Visitor_Seats = 2,
                  Timestamp = Some ''t1''\<rparr>,
                \<lparr>TicketID = ''0901'', Type = ''Public'', Category = ''Gold'', Seq = SeqInt 1,
                  Admit = 2, Sold = False, Visited = False, Customer = [], Visitor_Seats = 0,
                  Timestamp = None\<rparr>] \<and>
      Customer (demo_ticket ''0901'' True True) = ''Ann'')
   \<and> (elig ''Public'' ''Gold'' [demo_ticket ''0901'' False False, demo_ticket ''0901'' True False]
         = [''0901''] \<and>
      \<not> Sold (demo_ticket ''0901'' False False) \<and> \<not> Visited (demo_ticket ''0901'' False False) \<and>
      Sold (demo_ticket ''0901'' True False) \<and> \<not> Visited (demo_ticket ''0901'' True False) \<and>
      checkin ''Public'' ''Gold'' ''0901'' 2 ''t1''
          [demo_ticket ''0901'' False False, demo_ticket ''0901'' True False]
         = Inr [\<lparr>TicketID = ''0901'', Type = ''Public'', Category = ''Gold'', Seq = SeqInt 1,
                  Admit = 2, Sold = False, Visited = True, Customer = [], Visitor_Seats = 2,
                  Timestamp = Some ''t1''\<rparr>,
                \<lparr>TicketID = ''0901'', Type = ''Public'', Category = ''Gold'', Seq = SeqInt 1,
                  Admit = 2, Sold = True, Visited = False, Customer = ''Ann'', Visitor_Seats = 0,
                  Timestamp = Some ''t0''\<rparr>])"
proof (intro conjI impI)
  assume "confirm_sale tid cust now tickets = Inr tickets'"
  then show "\<exists>idx < length tickets. TicketID (tickets ! idx) = tid \<and>
          (\<forall>j < idx. TicketID (tickets ! j) \<noteq> tid) \<and>
          tickets' = tickets[idx := (tickets ! idx)\<lparr>Sold := True, Customer := cust,
                                                   Timestamp := Some now\<rparr>]"
    by (rule confirm_sale_row)
next
  assume "confirm_entry tid v_count now tickets = Inr tickets''"
  then show "\<exists>idx < length tickets. TicketID (tickets ! idx) = tid \<and>
          (\<forall>j < idx. TicketID (tickets ! j) \<noteq> tid) \<and>
          tickets'' = tickets[idx := (tickets ! idx)\<lparr>Visited := True, Visitor_Seats := v_count,
                                                    Timestamp := Some now\<rparr>]"
    by (rule confirm_entry_row)
next
  assume a: "\<exists>x \<in> set tickets. TicketID x = tid"
  from a confirm_sale_found show "\<exists>ts. confirm_sale tid cust now tickets = Inr ts"
    by blast
  from a confirm_entry_found show "\<exists>ts. confirm_entry tid v_count now tickets = Inr ts"
    by blast
next
  show "set (avail s_type s_cat tickets) =
        {TicketID t | t. t \<in> set tickets \<and> Type t = s_type \<and> Category t = s_cat \<and> \<not> Sold t}"
    by (rule avail_set)
  show "set (elig s_type s_cat tickets) =
        {TicketID t | t. t \<in> set tickets \<and> Type t = s_type \<and> Category t = s_cat \<and> Sold t \<and>
           \<not> Visited t}"
    by (rule elig_set)
  show "avail ''Public'' ''Gold'' [demo_ticket ''0901'' True True, demo_ticket ''0901'' False False]
         = [''0901'']"
    by (simp add: avail_def demo_ticket_def)
  show "manual_sale ''Public'' ''Gold'' ''0901'' ''Bob'' ''t1''
          [demo_ticket ''0901'' True True, demo_ticket ''0901'' False False]
         = Inr [\<lparr>TicketID = ''0901'', Type = ''Public'', Category = ''Gold'', Seq = SeqInt 1,
                  Admit = 2, Sold = True, Visited = True, Customer = ''Bob'', Visitor_Seats = 2,
                  Timestamp = Some ''t1''\<rparr>,
                \<lparr>TicketID = ''0901'', Type = ''Public'', Category = ''Gold'', Seq = SeqInt 1,
                  Admit = 2, Sold = False, Visited = False, Customer = [], Visitor_Seats = 0,
                  Timestamp = None\<rparr>]"
    by (simp add: manual_sale_def avail_def confirm_sale_def sell_row_def demo_ticket_def)
  show "elig ''Public'' ''Gold'' [demo_ticket ''0901'' False False, demo_ticket ''0901'' True False]
         = [''0901'']"
    by (simp add: elig_def demo_ticket_def)
  show "checkin ''Public'' ''Gold'' ''0901'' 2 ''t1''
          [demo_ticket ''0901'' False False, demo_ticket ''0901'' True False]
         = Inr [\<lparr>TicketID = ''0901'', Type = ''Public'', Category = ''Gold'', Seq = SeqInt 1,
                  Admit = 2, Sold = False, Visited = True, Customer = [], Visitor_Seats = 2,
                  Timestamp = Some ''t1''\<rparr>,
                \<lparr>TicketID = ''0901'', Type = ''Public'', Category = ''Gold'', Seq = SeqInt 1,
                  Admit = 2, Sold = True, Visited = False, Customer = ''Ann'', Visitor_Seats = 0,
                  Timestamp = Some ''t0''\<rparr>]"
    by (simp add: checkin_def elig_def confirm_entry_def number_input_def checkin_row_def
        demo_ticket_def)
qed (simp_all add: demo_ticket_def)

theorem lookup_by_ticket_id_witness:
  "(\<exists>idx < length [demo_ticket ''0901'' True True, demo_ticket ''0901'' False False].
       TicketID ([demo_ticket ''0901'' True True, demo_ticket ''0901'' False False] ! idx) = ''0901'' \<and>
       (\<forall>j < idx. TicketID ([demo_ticket ''0901'' True True, demo_ticket ''0901'' False False] ! j)
                   \<noteq> ''0901'') \<and>
       [\<lparr>TicketID = ''0901'', Type = ''Public'', Category = ''Gold'', Seq = SeqInt 1,
          Admit = 2, Sold = True, Visited = True, Customer = ''Bob'', Visitor_Seats = 2,
          Timestamp = Some ''t1''\<rparr>,
        demo_ticket ''0901'' False False]
         = [demo_ticket ''0901'' True True, demo_ticket ''0901'' False False]
             [idx := ([demo_ticket ''0901'' True True, demo_ticket ''0901'' False False] ! idx)
                       \<lparr>Sold := True, Customer := ''Bob'', Timestamp := Some ''t1''\<rparr>])
   \<and> (\<exists>ts. confirm_entry ''0901'' 2 ''t1''
              [demo_ticket ''0901'' True True, demo_ticket ''0901'' False False] = Inr ts)
   \<and> [\<lparr>TicketID = ''0901'', Type = ''Public'', Category = ''Gold'', Seq = SeqInt 1,
          Admit = 2, Sold = True, Visited = True, Customer = ''Bob'', Visitor_Seats = 2,
          Timestamp = Some ''t1''\<rparr>,
        demo_ticket ''0901'' False False]
       \<noteq> [demo_ticket ''0901'' True True, demo_ticket ''0901'' False False]"
proof -
  let ?T = "[demo_ticket ''0901'' True True, demo_ticket ''0901'' False False]"
  let ?T' = "[\<lparr>TicketID = ''0901'', Type = ''Public'', Category = ''Gold'', Seq = SeqInt 1,
          Admit = 2, Sold = True, Visited = True, Customer = ''Bob'', Visitor_Seats = 2,
          Timestamp = Some ''t1''\<rparr>,
        demo_ticket ''0901'' False False]"
  have run: "confirm_sale ''0901'' ''Bob'' ''t1'' ?T = Inr ?T'"
    by (simp add: confirm_sale_def sell_row_def demo_ticket_def)
  have ex: "\<exists>x \<in> set ?T. TicketID x = ''0901''"
    by (simp add: demo_ticket_def)
  note th = lookup_by_ticket_id [of "''0901''" "''Bob''" "''t1''" ?T ?T' 2]
  from th [THEN conjunct1] run
  have a: "\<exists>idx < length ?T. TicketID (?T ! idx) = ''0901'' \<and>
       (\<forall>j < idx. TicketID (?T ! j) \<noteq> ''0901'') \<and>
       ?T' = ?T[idx := (?T ! idx)\<lparr>Sold := True, Customer := ''Bob'', Timestamp := Some ''t1''\<rparr>]"
    by (rule mp)
  from th [THEN conjunct2, THEN conjunct2, THEN conjunct1] ex
  have b: "\<exists>ts. confirm_entry ''0901'' 2 ''t1'' ?T = Inr ts"
    by blast
  have c: "?T' \<noteq> ?T" by (simp add: demo_ticket_def)
  from a b c show ?thesis by blast
qed

subsection \<open>Check-in\<close>


lemma number_input_bounds:
  "number_input 1 max_v max_v entered = Inr v \<Longrightarrow> 1 \<le> v \<and> v \<le> max_v"
  by (auto simp: number_input_def split: if_splits)







subsection \<open>Bulk sale\<close>

lemma bulk_loop_frame:
  "length (bulk_loop rows clock k tickets) = length tickets \<and>
   (\<forall>i < length tickets.
       Sold (tickets ! i) \<or> TicketID (tickets ! i) \<notin> fst ` set rows \<longrightarrow>
       bulk_loop rows clock k tickets ! i = tickets ! i)"
proof (induction rows arbitrary: k tickets)
  case Nil
  then show ?case by simp
next
  case (Cons row rows)
  show ?case
  proof (cases "first_index (\<lambda>t. TicketID t = fst row \<and> \<not> Sold t) tickets")
    case None
    with Cons.IH [of "Suc k" tickets] show ?thesis by auto
  next
    case (Some idx)
    let ?T = "tickets[idx := sell_row (snd row) (clock k) (tickets ! idx)]"
    from first_index_Some [OF Some]
    have idx: "idx < length tickets" "TicketID (tickets ! idx) = fst row" "\<not> Sold (tickets ! idx)"
      by simp_all
    from Some have step: "bulk_loop (row # rows) clock k tickets = bulk_loop rows clock (Suc k) ?T"
      by simp
    from Cons.IH [of "Suc k" ?T]
    have len: "length (bulk_loop rows clock (Suc k) ?T) = length tickets"
      and fr: "\<forall>i < length tickets. Sold (?T ! i) \<or> TicketID (?T ! i) \<notin> fst ` set rows \<longrightarrow>
                 bulk_loop rows clock (Suc k) ?T ! i = ?T ! i"
      by simp_all
    have "\<forall>i < length tickets.
       Sold (tickets ! i) \<or> TicketID (tickets ! i) \<notin> fst ` set (row # rows) \<longrightarrow>
       bulk_loop rows clock (Suc k) ?T ! i = tickets ! i"
    proof (intro allI impI)
      fix i assume i: "i < length tickets"
        and h: "Sold (tickets ! i) \<or> TicketID (tickets ! i) \<notin> fst ` set (row # rows)"
      from h idx have ne: "i \<noteq> idx" by auto
      then have same: "?T ! i = tickets ! i" by simp
      from h ne have "Sold (?T ! i) \<or> TicketID (?T ! i) \<notin> fst ` set rows" by auto
      with fr i have "bulk_loop rows clock (Suc k) ?T ! i = ?T ! i" by blast
      with same show "bulk_loop rows clock (Suc k) ?T ! i = tickets ! i" by simp
    qed
    with len step show ?thesis by simp
  qed
qed

text \<open>
  C9. The bulk sale always returns a table, of the same length, and raises nothing. Every
  row that was already sold, and every row whose TicketID is not the filled ID of some
  uploaded row, is in the result exactly as it was, in every column. In particular, for
  an uploaded row whose filled ID is borne only by sold tickets, all rows of that ID are
  unchanged.
\<close>

theorem bulk_sale_frame:
  "\<exists>tickets'. process_bulk_sale up_df clock tickets = Inr tickets' \<and>
      length tickets' = length tickets \<and>
      (\<forall>i < length tickets.
          Sold (tickets ! i) \<or> TicketID (tickets ! i) \<notin> bulk_ticket_id ` fst ` set up_df \<longrightarrow>
          tickets' ! i = tickets ! i) \<and>
      (\<forall>row \<in> set up_df.
          (\<forall>t \<in> set tickets. TicketID t = bulk_ticket_id (fst row) \<longrightarrow> Sold t) \<longrightarrow>
          (\<forall>i < length tickets. TicketID (tickets ! i) = bulk_ticket_id (fst row) \<longrightarrow>
              tickets' ! i = tickets ! i))"
proof -
  let ?rows = "map (\<lambda>row. (bulk_ticket_id (fst row), snd row)) up_df"
  let ?T' = "bulk_loop ?rows clock 0 tickets"
  have ids: "fst ` set ?rows = bulk_ticket_id ` fst ` set up_df"
    by (simp add: image_image)
  from bulk_loop_frame [of ?rows clock 0 tickets]
  have len: "length ?T' = length tickets"
    and fr: "\<forall>i < length tickets.
          Sold (tickets ! i) \<or> TicketID (tickets ! i) \<notin> bulk_ticket_id ` fst ` set up_df \<longrightarrow>
          ?T' ! i = tickets ! i"
    unfolding ids by simp_all
  have sold: "\<forall>row \<in> set up_df.
          (\<forall>t \<in> set tickets. TicketID t = bulk_ticket_id (fst row) \<longrightarrow> Sold t) \<longrightarrow>
          (\<forall>i < length tickets. TicketID (tickets ! i) = bulk_ticket_id (fst row) \<longrightarrow>
              ?T' ! i = tickets ! i)"
  proof (intro ballI impI allI)
    fix row i
    assume a: "\<forall>t \<in> set tickets. TicketID t = bulk_ticket_id (fst row) \<longrightarrow> Sold t"
      and i: "i < length tickets" and t: "TicketID (tickets ! i) = bulk_ticket_id (fst row)"
    from a i t have "Sold (tickets ! i)" by (metis nth_mem)
    with fr i show "?T' ! i = tickets ! i" by blast
  qed
  have "process_bulk_sale up_df clock tickets = Inr ?T'"
    by (simp add: process_bulk_sale_def)
  with len fr sold show ?thesis by blast
qed

theorem bulk_sale_frame_witness:
  "process_bulk_sale [(''901'', ''Bob''), (''902'', ''Cy'')] (\<lambda>k. ''t1'')
      [demo_ticket ''0901'' True False, demo_ticket ''0902'' False False,
       demo_ticket ''0903'' False False]
     = Inr [demo_ticket ''0901'' True False, sell_row ''Cy'' ''t1'' (demo_ticket ''0902'' False False),
            demo_ticket ''0903'' False False]
   \<and> (\<exists>tickets'. process_bulk_sale [(''901'', ''Bob''), (''902'', ''Cy'')] (\<lambda>k. ''t1'')
          [demo_ticket ''0901'' True False, demo_ticket ''0902'' False False,
           demo_ticket ''0903'' False False] = Inr tickets' \<and>
        tickets' ! 0 = demo_ticket ''0901'' True False \<and>
        tickets' ! 2 = demo_ticket ''0903'' False False)"
proof -
  let ?T = "[demo_ticket ''0901'' True False, demo_ticket ''0902'' False False,
             demo_ticket ''0903'' False False]"
  let ?up = "[(''901'', ''Bob''), (''902'', ''Cy'')]"
  have run: "process_bulk_sale ?up (\<lambda>k. ''t1'') ?T
     = Inr [demo_ticket ''0901'' True False, sell_row ''Cy'' ''t1'' (demo_ticket ''0902'' False False),
            demo_ticket ''0903'' False False]"
    by (simp add: process_bulk_sale_def bulk_ticket_id_def zfill_def demo_ticket_def
        eval_nat_numeral)
  from bulk_sale_frame [of ?up "\<lambda>k. ''t1''" ?T] obtain tickets'
    where p: "process_bulk_sale ?up (\<lambda>k. ''t1'') ?T = Inr tickets'"
      and fr: "\<forall>i < length ?T.
          Sold (?T ! i) \<or> TicketID (?T ! i) \<notin> bulk_ticket_id ` fst ` set ?up \<longrightarrow>
          tickets' ! i = ?T ! i"
    by blast
  have s0: "Sold (?T ! 0)" by (simp add: demo_ticket_def)
  have s2: "TicketID (?T ! 2) \<notin> bulk_ticket_id ` fst ` set ?up"
    by (simp add: demo_ticket_def bulk_ticket_id_def zfill_def eval_nat_numeral)
  from fr s0 have t0: "tickets' ! 0 = ?T ! 0" by simp
  from fr s2 have t2: "tickets' ! 2 = ?T ! 2" by simp
  from p t0 t2 have "\<exists>tickets'. process_bulk_sale ?up (\<lambda>k. ''t1'') ?T = Inr tickets' \<and>
        tickets' ! 0 = demo_ticket ''0901'' True False \<and>
        tickets' ! 2 = demo_ticket ''0903'' False False"
    by simp
  with run show ?thesis by (rule conjI)
qed


subsection \<open>The invariant of the table\<close>

lemma invariant_update:
  assumes "visited_implies_sold tickets" and "Visited t \<longrightarrow> Sold t"
  shows "visited_implies_sold (tickets[idx := t])"
  using assms set_update_subset_insert [of tickets idx t]
  by (auto simp: visited_implies_sold_def list_all_iff)

lemma reset_keeps_invariant:
  "reset_database admin_pass tickets = Inr tickets' \<Longrightarrow> visited_implies_sold tickets \<Longrightarrow>
     visited_implies_sold tickets'"
  by (auto simp: reset_database_def visited_implies_sold_def reset_row_def list_all_iff
      split: if_splits)

lemma confirm_sale_keeps_invariant:
  assumes "confirm_sale tid cust now tickets = Inr tickets'" and "visited_implies_sold tickets"
  shows "visited_implies_sold tickets'"
proof -
  from confirm_sale_Inr [OF assms(1)] obtain idx
    where "tickets' = tickets[idx := sell_row cust now (tickets ! idx)]" by blast
  with assms(2) show ?thesis
    by (simp add: invariant_update sell_row_fields)
qed

lemma manual_sale_keeps_invariant:
  assumes "manual_sale s_type s_cat tid cust now tickets = Inr tickets'"
    and "visited_implies_sold tickets"
  shows "visited_implies_sold tickets'"
  using manual_sale_cases [of s_type s_cat tid cust now tickets] assms
    confirm_sale_keeps_invariant by auto

lemma bulk_loop_keeps_invariant:
  "visited_implies_sold tickets \<Longrightarrow> visited_implies_sold (bulk_loop rows clock k tickets)"
proof (induction rows arbitrary: k tickets)
  case Nil
  then show ?case by simp
next
  case (Cons row rows)
  show ?case
  proof (cases "first_index (\<lambda>t. TicketID t = fst row \<and> \<not> Sold t) tickets")
    case None
    with Cons show ?thesis by simp
  next
    case (Some idx)
    have "visited_implies_sold (tickets[idx := sell_row (snd row) (clock k) (tickets ! idx)])"
      using Cons.prems by (simp add: invariant_update sell_row_fields)
    from Cons.IH [OF this] Some show ?thesis by simp
  qed
qed

lemma bulk_sale_keeps_invariant:
  "process_bulk_sale up_df clock tickets = Inr tickets' \<Longrightarrow> visited_implies_sold tickets \<Longrightarrow>
     visited_implies_sold tickets'"
  by (auto simp: process_bulk_sale_def bulk_loop_keeps_invariant)

lemma checkin_cases:
  "checkin v_type v_cat tid entered now tickets = Inr tickets' \<Longrightarrow>
     tickets' = tickets \<or>
     (tid \<in> set (elig v_type v_cat tickets) \<and>
      (\<exists>v_count. confirm_entry tid v_count now tickets = Inr tickets'))"
  by (auto simp: checkin_def Let_def split: if_splits option.splits sum.splits)

lemma checkin_keeps_invariant_distinct:
  assumes c: "checkin v_type v_cat tid entered now tickets = Inr tickets'"
    and inv: "visited_implies_sold tickets"
    and d: "distinct (map TicketID tickets)"
  shows "visited_implies_sold tickets'"
proof -
  from checkin_cases [OF c] show ?thesis
  proof
    assume "tickets' = tickets"
    with inv show ?thesis by simp
  next
    assume a: "tid \<in> set (elig v_type v_cat tickets) \<and>
               (\<exists>v_count. confirm_entry tid v_count now tickets = Inr tickets')"
    then obtain x where x: "x \<in> set tickets" "TicketID x = tid" "Sold x"
      by (auto simp: elig_def)
    from a confirm_entry_Inr obtain idx v_count where idx: "idx < length tickets"
      "TicketID (tickets ! idx) = tid"
      and t: "tickets' = tickets[idx := checkin_row v_count now (tickets ! idx)]"
      by blast
    from x(1) obtain k where k: "k < length tickets" "tickets ! k = x"
      by (auto simp: in_set_conv_nth)
    from k x(2) idx have same: "map TicketID tickets ! k = map TicketID tickets ! idx"
      by simp
    have "(map TicketID tickets ! k = map TicketID tickets ! idx) = (k = idx)"
      using d k(1) idx(1) by (intro nth_eq_iff_index_eq) simp_all
    with same have "k = idx" by simp
    with k x(3) have "Sold (tickets ! idx)" by simp
    with inv t show ?thesis
      by (simp add: invariant_update checkin_row_fields)
  qed
qed

text \<open>
  C1. The invariant is kept by the reset, the sale and the bulk sale on every table, and by
  the check-in on every table whose TicketIDs are distinct (the lemmas above). On a table
  with a duplicated TicketID the check-in breaks it: the raw cells \<^verbatim>\<open>901\<close> and
  \<^verbatim>\<open>901.0\<close> both clean to \<^verbatim>\<open>0901\<close>; with the first such row unsold and the second sold
  and not visited the invariant holds and the ID is offered, and confirming the entry
  marks the first row, which is not sold, as visited.
\<close>

theorem checkin_breaks_invariant:
  "clean_ticket_id ''901'' = ''0901'' \<and> clean_ticket_id ''901.0'' = ''0901''
   \<and> visited_implies_sold [demo_ticket ''0901'' False False, demo_ticket ''0901'' True False]
   \<and> elig ''Public'' ''Gold'' [demo_ticket ''0901'' False False, demo_ticket ''0901'' True False]
        = [''0901'']
   \<and> checkin ''Public'' ''Gold'' ''0901'' 2 now
        [demo_ticket ''0901'' False False, demo_ticket ''0901'' True False]
        = Inr [checkin_row 2 now (demo_ticket ''0901'' False False), demo_ticket ''0901'' True False]
   \<and> Visited (checkin_row 2 now (demo_ticket ''0901'' False False))
   \<and> \<not> Sold (checkin_row 2 now (demo_ticket ''0901'' False False))
   \<and> \<not> visited_implies_sold
         [checkin_row 2 now (demo_ticket ''0901'' False False), demo_ticket ''0901'' True False]"
proof (intro conjI)
  show "clean_ticket_id ''901'' = ''0901''" by code_simp
  show "clean_ticket_id ''901.0'' = ''0901''" by code_simp
  show "visited_implies_sold [demo_ticket ''0901'' False False, demo_ticket ''0901'' True False]"
    by (simp add: visited_implies_sold_def demo_ticket_def)
  show "elig ''Public'' ''Gold'' [demo_ticket ''0901'' False False, demo_ticket ''0901'' True False]
        = [''0901'']"
    by (simp add: elig_def demo_ticket_def)
  show "checkin ''Public'' ''Gold'' ''0901'' 2 now
        [demo_ticket ''0901'' False False, demo_ticket ''0901'' True False]
        = Inr [checkin_row 2 now (demo_ticket ''0901'' False False), demo_ticket ''0901'' True False]"
    by (simp add: checkin_def elig_def confirm_entry_def number_input_def demo_ticket_def)
  show "Visited (checkin_row 2 now (demo_ticket ''0901'' False False))"
    by (simp add: checkin_row_def)
  show "\<not> Sold (checkin_row 2 now (demo_ticket ''0901'' False False))"
    by (simp add: checkin_row_def demo_ticket_def)
  show "\<not> visited_implies_sold
         [checkin_row 2 now (demo_ticket ''0901'' False False), demo_ticket ''0901'' True False]"
    by (simp add: visited_implies_sold_def checkin_row_def demo_ticket_def)
qed

theorem checkin_breaks_invariant_witness:
  "visited_implies_sold [demo_ticket ''0901'' False False, demo_ticket ''0901'' True False]
   \<and> checkin ''Public'' ''Gold'' ''0901'' 2 ''t1''
        [demo_ticket ''0901'' False False, demo_ticket ''0901'' True False]
        = Inr [checkin_row 2 ''t1'' (demo_ticket ''0901'' False False), demo_ticket ''0901'' True False]
   \<and> \<not> visited_implies_sold
         [checkin_row 2 ''t1'' (demo_ticket ''0901'' False False), demo_ticket ''0901'' True False]"
  using checkin_breaks_invariant [of "''t1''"] by blast


end
